theory Spec2Isabelle
  imports Main
begin

section \<open>Values, errors and effects\<close>

text \<open>
  The embedded program is \<^verbatim>\<open>src/services/setup.js\<close>, the class \<^verbatim>\<open>SetupService\<close>
  with its three static methods \<^verbatim>\<open>isAvailable\<close>, \<^verbatim>\<open>validate\<close> and \<^verbatim>\<open>setup\<close>.

  The error classes come from \<^verbatim>\<open>require('../errors')\<close>. The four the source names are
  constructors of their own; \<open>TypeError\<close> is what JavaScript raises when a destructuring
  pattern meets \<^verbatim>\<open>undefined\<close>; every other failure a collaborator can raise is
  \<open>ErrOther\<close> with its name.
\<close>

datatype error =
    ErrMissingEmail
  | ErrInstallLock
  | ErrSettingsInit
  | ErrSettingsNotInit
  | TypeError
  | ErrOther string

text \<open>
  The fields of the user input are JavaScript values: the source tests \<^verbatim>\<open>!email\<close>,
  which is true of \<^verbatim>\<open>undefined\<close>, \<^verbatim>\<open>null\<close>, \<^verbatim>\<open>false\<close>, \<^verbatim>\<open>0\<close> and the empty
  string. Numbers are integers here (no NaN, no fractions).
\<close>

datatype jsval = JUndefined | JNull | JBool bool | JNum int | JStr string

fun truthy :: "jsval \<Rightarrow> bool" where
  "truthy JUndefined = False"
| "truthy JNull = False"
| "truthy (JBool b) = b"
| "truthy (JNum n) = (n \<noteq> 0)"
| "truthy (JStr s) = (s \<noteq> [])"

text \<open>
  The calls \<^verbatim>\<open>SetupService\<close> makes to its collaborators, and the record of one call:
  which one, and the error it failed with (\<open>None\<close> when it succeeded).
\<close>

datatype call =
    Select
  | IsValidUsername
  | IsValidPassword
  | SettingsValidate
  | ListPending
  | Run
  | Update
  | CreateLocalUser
  | SetRole
  | ConfirmEmail

datatype event = Ev (ev_call: call) (ev_err: "error option")

text \<open>
  An asynchronous computation over the external state \<open>'w\<close> (the database): from a state
  it gives an outcome (\<open>Inl\<close> a rejection, \<open>Inr\<close> a value), the state it leaves and
  the collaborator calls it made, oldest first.
\<close>

type_synonym ('w, 'a) io = "'w \<Rightarrow> (error + 'a) \<times> 'w \<times> event list"

definition ret :: "'a \<Rightarrow> ('w, 'a) io" where
  "ret x w = (Inr x, w, [])"

definition throw :: "error \<Rightarrow> ('w, 'a) io" where
  "throw e w = (Inl e, w, [])"

text \<open>\<^verbatim>\<open>x = await m; f(x)\<close>: a rejection of \<open>m\<close> ends the sequence.\<close>

definition andThen :: "('w, 'a) io \<Rightarrow> ('a \<Rightarrow> ('w, 'b) io) \<Rightarrow> ('w, 'b) io" where
  "andThen m f w =
     (case m w of
        (Inl e, w', t) \<Rightarrow> (Inl e, w', t)
      | (Inr x, w', t) \<Rightarrow> (case f x w' of (r, w'', t') \<Rightarrow> (r, w'', t @ t')))"

text \<open>\<^verbatim>\<open>try { m } catch (err) { h(err) }\<close>\<close>

definition try_catch :: "('w, 'a) io \<Rightarrow> (error \<Rightarrow> ('w, 'a) io) \<Rightarrow> ('w, 'a) io" where
  "try_catch m h w =
     (case m w of
        (Inl e, w', t) \<Rightarrow> (case h e w' of (r, w'', t') \<Rightarrow> (r, w'', t @ t'))
      | (Inr x, w', t) \<Rightarrow> (Inr x, w', t))"

text \<open>A call to a collaborator: its effect on the state, and its record in the trace.\<close>

fun rejection :: "error + 'a \<Rightarrow> error option" where
  "rejection (Inl e) = Some e"
| "rejection (Inr v) = None"

definition call :: "call \<Rightarrow> ('w \<Rightarrow> (error + 'a) \<times> 'w) \<Rightarrow> ('w, 'a) io" where
  "call c f w = (case f w of (r, w') \<Rightarrow> (r, w', [Ev c (rejection r)]))"

text \<open>
  An element of the array given to \<^verbatim>\<open>Promise.all\<close>: the call is made when the array is
  built, and its outcome is a promise that is only looked at by \<^verbatim>\<open>Promise.all\<close>. So
  starting never fails, and the elements of the array are started in the array's order.
  The effects of the started calls are taken in that order, one call after the other: the
  interleaving of their database operations is not modelled.
\<close>

definition start :: "('w, 'a) io \<Rightarrow> ('w, error + 'a) io" where
  "start m w = (case m w of (r, w', t) \<Rightarrow> (Inr r, w', t))"

text \<open>
  \<^verbatim>\<open>Promise.all\<close> rejects with the rejection that settles first and resolves with all
  the values when none rejects. The settling time of each promise is given by \<open>tm\<close>;
  of two rejections with the same time the earlier in the array wins.
\<close>

fun first_rejected :: "(call \<Rightarrow> nat) \<Rightarrow> (call \<times> (error + 'a)) list \<Rightarrow> (call \<times> error) option" where
  "first_rejected tm [] = None"
| "first_rejected tm ((c, Inr v) # ps) = first_rejected tm ps"
| "first_rejected tm ((c, Inl e) # ps) =
     (case first_rejected tm ps of
        None \<Rightarrow> Some (c, e)
      | Some (c', e') \<Rightarrow> if tm c' < tm c then Some (c', e') else Some (c, e))"

fun resolved :: "(call \<times> (error + 'a)) list \<Rightarrow> 'a list" where
  "resolved [] = []"
| "resolved ((c, Inr v) # ps) = v # resolved ps"
| "resolved ((c, Inl e) # ps) = resolved ps"

definition promise_all :: "(call \<Rightarrow> nat) \<Rightarrow> (call \<times> (error + 'a)) list \<Rightarrow> error + 'a list" where
  "promise_all tm ps =
     (case first_rejected tm ps of
        Some (c, e) \<Rightarrow> Inl e
      | None \<Rightarrow> Inr (resolved ps))"

text \<open>Waiting for a promise whose outcome is \<open>r\<close>: no call is made, the state stays.\<close>

definition await :: "error + 'a \<Rightarrow> ('w, 'a) io" where
  "await r w = (r, w, [])"

section \<open>The collaborators\<close>

text \<open>
  \<^verbatim>\<open>UsersService\<close>, \<^verbatim>\<open>SettingsService\<close>, \<^verbatim>\<open>MigrationService\<close>, \<^verbatim>\<open>SettingsModel\<close>
  and the constant \<^verbatim>\<open>INSTALL_LOCK\<close> are required by the source and are parameters
  here: every one is an arbitrary function from the external state to an outcome and a new
  state. The types \<open>'c\<close> (the request context), \<open>'s\<close> (settings), \<open>'m\<close> (the pending
  migrations), \<open>'u\<close> (a user document) and \<open>'i\<close> (its id) are theirs. \<open>settle\<close> is the
  time at which the promise of a fanned-out call settles.
\<close>

record ('w, 'c, 's, 'm, 'u, 'i) env =
  INSTALL_LOCK :: bool
  Settings_select :: "string \<Rightarrow> 'w \<Rightarrow> (error + 's) \<times> 'w"
  Settings_update :: "'s \<Rightarrow> 'w \<Rightarrow> (error + 's) \<times> 'w"
  Users_isValidUsername :: "jsval \<Rightarrow> bool \<Rightarrow> 'w \<Rightarrow> (error + unit) \<times> 'w"
  Users_isValidPassword :: "jsval \<Rightarrow> 'w \<Rightarrow> (error + unit) \<times> 'w"
  SettingsModel_validate :: "'s \<Rightarrow> 'w \<Rightarrow> (error + unit) \<times> 'w"
  Migration_listPending :: "'w \<Rightarrow> (error + 'm) \<times> 'w"
  Migration_run :: "'m \<Rightarrow> 'w \<Rightarrow> (error + unit) \<times> 'w"
  Users_createLocalUser :: "'c \<Rightarrow> jsval \<Rightarrow> jsval \<Rightarrow> jsval \<Rightarrow> 'w \<Rightarrow> (error + 'u) \<times> 'w"
  user_id :: "'u \<Rightarrow> 'i"
  Users_setRole :: "'i \<Rightarrow> string \<Rightarrow> 'w \<Rightarrow> (error + unit) \<times> 'w"
  Users_confirmEmail :: "'i \<Rightarrow> jsval \<Rightarrow> 'w \<Rightarrow> (error + unit) \<times> 'w"
  settle :: "call \<Rightarrow> nat"

section \<open>SetupService\<close>

text \<open>
  The argument of \<^verbatim>\<open>validate\<close> and \<^verbatim>\<open>setup\<close>:
  \<^verbatim>\<open>{ settings, user: { email, username, password } }\<close>. Destructuring a missing
  \<^verbatim>\<open>user\<close> raises a TypeError.
\<close>

record user_input =
  email :: jsval
  username :: jsval
  password :: jsval

record 's setup_input =
  settings :: 's
  user :: "user_input option"

text \<open>The value \<^verbatim>\<open>{ settings, user }\<close> that \<^verbatim>\<open>setup\<close> returns.\<close>

record ('s, 'u) setup_result =
  r_settings :: 's
  r_user :: 'u

definition isAvailable :: "('w, 'c, 's, 'm, 'u, 'i) env \<Rightarrow> ('w, unit) io" where
  "isAvailable env =
     (if INSTALL_LOCK env then throw ErrInstallLock
      else try_catch
             (andThen (call Select (Settings_select env ''id''))
                (\<lambda>_. throw ErrSettingsInit))
             (\<lambda>err. if err = ErrSettingsNotInit then ret () else throw err))"

definition validate :: "('w, 'c, 's, 'm, 'u, 'i) env \<Rightarrow> 's setup_input \<Rightarrow> ('w, unit list) io" where
  "validate env inp =
     (case user inp of
        None \<Rightarrow> throw TypeError
      | Some u \<Rightarrow>
          if \<not> truthy (email u) then throw ErrMissingEmail
          else
            andThen (start (call IsValidUsername (Users_isValidUsername env (username u) False)))
            (\<lambda>p1. andThen (start (call IsValidPassword (Users_isValidPassword env (password u))))
            (\<lambda>p2. andThen (start (call SettingsValidate (SettingsModel_validate env (settings inp))))
            (\<lambda>p3. await (promise_all (settle env)
                    [(IsValidUsername, p1), (IsValidPassword, p2), (SettingsValidate, p3)])))))"

text \<open>
  \<^verbatim>\<open>SetupService.setup\<close>, written \<open>setup'\<close> since the plain name is reserved by Isabelle.
\<close>

definition setup' ::
  "('w, 'c, 's, 'm, 'u, 'i) env \<Rightarrow> 'c \<Rightarrow> 's setup_input \<Rightarrow> ('w, ('s, 'u) setup_result) io" where
  "setup' env ctx inp =
     (case user inp of
        None \<Rightarrow> throw TypeError
      | Some u \<Rightarrow>
          andThen (validate env
                     \<lparr>settings = settings inp,
                      user = Some \<lparr>email = email u, username = username u, password = password u\<rparr>\<rparr>)
          (\<lambda>_. andThen (call ListPending (Migration_listPending env))
          (\<lambda>migrations. andThen (call Run (Migration_run env migrations))
          (\<lambda>_. andThen (call Update (Settings_update env (settings inp)))
          (\<lambda>settings'. andThen (call CreateLocalUser
                                  (Users_createLocalUser env ctx (email u) (password u) (username u)))
          (\<lambda>usr. andThen (start (call SetRole (Users_setRole env (user_id env usr) ''ADMIN'')))
          (\<lambda>p1. andThen (start (call ConfirmEmail
                                   (Users_confirmEmail env (user_id env usr) (email u))))
          (\<lambda>p2. andThen (await (promise_all (settle env) [(SetRole, p1), (ConfirmEmail, p2)]))
          (\<lambda>_. ret \<lparr>r_settings = settings', r_user = usr\<rparr>)))))))))"

section \<open>A reference store\<close>

text \<open>
  The services behind \<^verbatim>\<open>SettingsService\<close>, \<^verbatim>\<open>MigrationService\<close> and
  \<^verbatim>\<open>UsersService\<close> are outside \<^verbatim>\<open>src/\<close>. The general results below hold for
  every environment; this store is the concrete one they are evaluated on. It holds the
  configuration singleton, the accounts, and the migrations applied and pending.
\<close>

record account =
  acc_id :: nat
  acc_email :: jsval
  acc_username :: jsval
  acc_password :: jsval
  acc_role :: "string option"
  acc_confirmed :: bool

text \<open>
  A user document as the caller holds it: a reference to the account object of the store.
  The object is identified by its id, which is fresh at creation and never changes.
\<close>

datatype user_ref = UserRef (ref_id: nat)

record store =
  config :: "string option"
  accounts :: "account list"
  applied :: "string list"
  pending :: "string list"

text \<open>
  Modelled from the spec: ConfigStore's read (\<^verbatim>\<open>SettingsService.select\<close>, absent from
  \<^verbatim>\<open>src/\<close>). "If a record is found" the read gives it; otherwise it "fails with
  NotInitialized (the store's designated no such record signal)". It changes nothing.
\<close>

definition store_select :: "string \<Rightarrow> store \<Rightarrow> (error + string) \<times> store" where
  "store_select flds w =
     (case config w of None \<Rightarrow> (Inl ErrSettingsNotInit, w) | Some s \<Rightarrow> (Inr s, w))"

text \<open>
  Modelled from the spec: ConfigStore's write (\<^verbatim>\<open>SettingsService.update\<close>, absent from
  \<^verbatim>\<open>src/\<close>): "replacing/creating the singleton Configuration; returns the persisted
  settings".
\<close>

definition store_update :: "string \<Rightarrow> store \<Rightarrow> (error + string) \<times> store" where
  "store_update s w = (Inr s, w\<lparr>config := Some s\<rparr>)"

text \<open>
  Modelled from the spec: MigrationRunner (\<^verbatim>\<open>MigrationService\<close>, absent from
  \<^verbatim>\<open>src/\<close>): listPending produces "an ordered sequence of named migration units not
  yet applied", run "applies them in the given order".
\<close>

definition store_listPending :: "store \<Rightarrow> (error + string list) \<times> store" where
  "store_listPending w = (Inr (pending w), w)"

definition store_run :: "string list \<Rightarrow> store \<Rightarrow> (error + unit) \<times> store" where
  "store_run ms w =
     (Inr (), w\<lparr>applied := applied w @ ms, pending := filter (\<lambda>m. m \<notin> set ms) (pending w)\<rparr>)"

text \<open>
  Modelled from the spec: AccountStore (\<^verbatim>\<open>UsersService\<close>, absent from \<^verbatim>\<open>src/\<close>):
  it "creates user records, assigns roles, marks email confirmation". The Account is
  "created by AccountStore.createLocalUser; subsequently mutated twice in the same
  operation - role elevated to administrator, email marked confirmed": the account is one
  object, the one \<^verbatim>\<open>createLocalUser\<close> returns, and \<^verbatim>\<open>setRole\<close> and
  \<^verbatim>\<open>confirmEmail\<close> change that object, found by its id. So \<^verbatim>\<open>createLocalUser\<close>
  returns a reference, and \<open>account_of\<close> reads the fields the referenced object has in a
  given state. A created account has a fresh id, no role assigned yet and an unconfirmed
  email.
\<close>

definition fresh_id :: "account list \<Rightarrow> nat" where
  "fresh_id as = Suc (foldr max (map acc_id as) 0)"

definition account_of :: "store \<Rightarrow> user_ref \<Rightarrow> account option" where
  "account_of w usr = List.find (\<lambda>a. acc_id a = ref_id usr) (accounts w)"

definition store_createLocalUser ::
  "unit \<Rightarrow> jsval \<Rightarrow> jsval \<Rightarrow> jsval \<Rightarrow> store \<Rightarrow> (error + user_ref) \<times> store" where
  "store_createLocalUser ctx e p u w =
     (let a = \<lparr>acc_id = fresh_id (accounts w), acc_email = e, acc_username = u,
                acc_password = p, acc_role = None, acc_confirmed = False\<rparr>
      in (Inr (UserRef (acc_id a)), w\<lparr>accounts := accounts w @ [a]\<rparr>))"

definition store_setRole :: "nat \<Rightarrow> string \<Rightarrow> store \<Rightarrow> (error + unit) \<times> store" where
  "store_setRole i r w =
     (Inr (), w\<lparr>accounts := map (\<lambda>a. if acc_id a = i then a\<lparr>acc_role := Some r\<rparr> else a)
                                (accounts w)\<rparr>)"

definition store_confirmEmail :: "nat \<Rightarrow> jsval \<Rightarrow> store \<Rightarrow> (error + unit) \<times> store" where
  "store_confirmEmail i e w =
     (Inr (), w\<lparr>accounts := map (\<lambda>a. if acc_id a = i then a\<lparr>acc_confirmed := True\<rparr> else a)
                                (accounts w)\<rparr>)"

text \<open>
  Modelled from the spec: the validity rules of usernames, passwords and settings are
  out of the spec's scope ("specified only at their interface boundary"), so the reference
  checks accept everything. A failure of any collaborator is injected instead: \<open>faults c\<close>
  is the error the call \<open>c\<close> fails with, leaving the store as it was.
\<close>

definition accept :: "store \<Rightarrow> (error + unit) \<times> store" where
  "accept w = (Inr (), w)"

definition inject ::
  "(call \<Rightarrow> error option) \<Rightarrow> call \<Rightarrow> (store \<Rightarrow> (error + 'a) \<times> store) \<Rightarrow> store \<Rightarrow> (error + 'a) \<times> store" where
  "inject faults c f w = (case faults c of Some e \<Rightarrow> (Inl e, w) | None \<Rightarrow> f w)"

definition ref_env ::
  "bool \<Rightarrow> (call \<Rightarrow> error option) \<Rightarrow> (call \<Rightarrow> nat)
     \<Rightarrow> (store, unit, string, string list, user_ref, nat) env" where
  "ref_env lock faults tm =
     \<lparr>INSTALL_LOCK = lock,
      Settings_select = (\<lambda>flds. inject faults Select (store_select flds)),
      Settings_update = (\<lambda>s. inject faults Update (store_update s)),
      Users_isValidUsername = (\<lambda>u strict. inject faults IsValidUsername accept),
      Users_isValidPassword = (\<lambda>p. inject faults IsValidPassword accept),
      SettingsModel_validate = (\<lambda>s. inject faults SettingsValidate accept),
      Migration_listPending = inject faults ListPending store_listPending,
      Migration_run = (\<lambda>ms. inject faults Run (store_run ms)),
      Users_createLocalUser = (\<lambda>ctx e p u. inject faults CreateLocalUser (store_createLocalUser ctx e p u)),
      user_id = ref_id,
      Users_setRole = (\<lambda>i r. inject faults SetRole (store_setRole i r)),
      Users_confirmEmail = (\<lambda>i e. inject faults ConfirmEmail (store_confirmEmail i e)),
      settle = tm\<rparr>"

text \<open>
  A fresh instance with one pending migration, the spec's scenario input
  (\<^verbatim>\<open>a@b.com\<close>, \<^verbatim>\<open>admin\<close>, \<^verbatim>\<open>Str0ngPW!\<close>), and the store with a configuration.
\<close>

definition store0 :: store where
  "store0 = \<lparr>config = None, accounts = [], applied = [], pending = [''m1'']\<rparr>"

definition store1 :: store where
  "store1 = \<lparr>config = Some ''S0'', accounts = [], applied = [''m1''], pending = []\<rparr>"

definition input0 :: "string setup_input" where
  "input0 =
     \<lparr>settings = ''S'',
      user = Some \<lparr>email = JStr ''a@b.com'', username = JStr ''admin'',
                   password = JStr ''Str0ngPW!''\<rparr>\<rparr>"

definition no_faults :: "call \<Rightarrow> error option" where
  "no_faults c = None"

definition at_once :: "call \<Rightarrow> nat" where
  "at_once c = 0"

definition input1 :: "string setup_input" where
  "input1 =
     \<lparr>settings = ''S2'',
      user = Some \<lparr>email = JStr ''c@d.org'', username = JStr ''root'',
                   password = JStr ''An0therPW!''\<rparr>\<rparr>"

section \<open>Traces\<close>

text \<open>The trace of the three validation checks when all of them succeed.\<close>

definition checks_ok :: "event list" where
  "checks_ok = [Ev IsValidUsername None, Ev IsValidPassword None, Ev SettingsValidate None]"

text \<open>
  The awaited expressions of \<^verbatim>\<open>setup\<close>, in the order of the source: the calls of one
  \<^verbatim>\<open>Promise.all\<close> are one stage, every other call is a stage of its own.
  \<^verbatim>\<open>setup\<close> never calls \<^verbatim>\<open>SettingsService.select\<close>; it is stage 0.
\<close>

fun stage :: "call \<Rightarrow> nat" where
  "stage Select = 0"
| "stage IsValidUsername = 1"
| "stage IsValidPassword = 1"
| "stage SettingsValidate = 1"
| "stage ListPending = 2"
| "stage Run = 3"
| "stage Update = 4"
| "stage CreateLocalUser = 5"
| "stage SetRole = 6"
| "stage ConfirmEmail = 6"

section \<open>Basic facts\<close>

lemmas io_defs = andThen_def try_catch_def call_def start_def await_def ret_def throw_def promise_all_def
lemmas store_defs = ref_env_def inject_def accept_def store_select_def store_update_def store_listPending_def
  account_of_def
  store_run_def store_createLocalUser_def store_setRole_def store_confirmEmail_def fresh_id_def
  store0_def store1_def input0_def input1_def no_faults_def at_once_def

lemma first_rejected_mem:
  "first_rejected tm ps = Some (c, e) \<Longrightarrow> (c, Inl e) \<in> set ps"
  by (induction tm ps arbitrary: c e rule: first_rejected.induct) (auto split: option.splits if_splits)

lemma first_rejected_None:
  "first_rejected tm ps = None \<longleftrightarrow> (\<forall>(c, p) \<in> set ps. rejection p = None)"
  by (induction tm ps rule: first_rejected.induct) (auto split: option.splits if_splits)

lemma promise_all_Inl:
  "promise_all tm ps = Inl e \<Longrightarrow> \<exists>c. (c, Inl e) \<in> set ps"
  by (auto simp: promise_all_def split: option.splits dest: first_rejected_mem)

lemma promise_all_Inr:
  "promise_all tm ps = Inr vs \<Longrightarrow> \<forall>(c, p) \<in> set ps. rejection p = None"
  by (auto simp: promise_all_def first_rejected_None split: option.splits)

lemma promise_all_rejects:
  "(c, Inl e) \<in> set ps \<Longrightarrow> \<exists>e'. promise_all tm ps = Inl e'"
  by (cases "first_rejected tm ps") (auto simp: promise_all_def first_rejected_None)

lemma rejection_None: "rejection p = None \<longleftrightarrow> (\<exists>v. p = Inr v)"
  by (cases p) auto

lemma rejection_Some: "rejection p = Some e \<longleftrightarrow> p = Inl e"
  by (cases p) auto

lemma validate_cases:
  assumes "validate env inp w = (r, w', t)"
  obtains (no_user) "user inp = None" "r = Inl TypeError" "w' = w" "t = []"
  | (no_email) u where "user inp = Some u" "\<not> truthy (email u)" "r = Inl ErrMissingEmail" "w' = w" "t = []"
  | (checked) u p1 w1 p2 w2 p3 where "user inp = Some u" "truthy (email u)"
      "Users_isValidUsername env (username u) False w = (p1, w1)"
      "Users_isValidPassword env (password u) w1 = (p2, w2)"
      "SettingsModel_validate env (settings inp) w2 = (p3, w')"
      "t = [Ev IsValidUsername (rejection p1), Ev IsValidPassword (rejection p2), Ev SettingsValidate (rejection p3)]"
      "r = promise_all (settle env) [(IsValidUsername, p1), (IsValidPassword, p2), (SettingsValidate, p3)]"
proof (cases "user inp")
  case None
  with assms that(1) show ?thesis by (simp add: validate_def throw_def)
next
  case (Some u)
  show ?thesis
  proof (cases "truthy (email u)")
    case False
    with Some assms that(2) show ?thesis by (simp add: validate_def throw_def)
  next
    case True
    obtain p1 w1 where c1: "Users_isValidUsername env (username u) False w = (p1, w1)"
      by (cases "Users_isValidUsername env (username u) False w")
    obtain p2 w2 where c2: "Users_isValidPassword env (password u) w1 = (p2, w2)"
      by (cases "Users_isValidPassword env (password u) w1")
    obtain p3 w3 where c3: "SettingsModel_validate env (settings inp) w2 = (p3, w3)"
      by (cases "SettingsModel_validate env (settings inp) w2")
    from assms Some True c1 c2 c3
    have "r = promise_all (settle env) [(IsValidUsername, p1), (IsValidPassword, p2), (SettingsValidate, p3)]"
      "w' = w3"
      "t = [Ev IsValidUsername (rejection p1), Ev IsValidPassword (rejection p2), Ev SettingsValidate (rejection p3)]"
      by (simp_all add: validate_def andThen_def start_def call_def await_def)
    with that(3)[OF Some True c1 c2] c3 show ?thesis by simp
  qed
qed

lemma validate_resolved_trace:
  assumes "validate env inp w = (Inr vs, w', t)"
  shows "t = checks_ok"
  using assms
  by (cases rule: validate_cases) (auto simp: checks_ok_def dest!: promise_all_Inr[OF sym])

lemma validate_rejected_trace:
  assumes "validate env inp w = (Inl e, w', t)"
  shows "t = [] \<and> w' = w \<and> e \<in> {TypeError, ErrMissingEmail} \<or>
    (\<exists>o1 o2 o3. t = [Ev IsValidUsername o1, Ev IsValidPassword o2, Ev SettingsValidate o3] \<and>
       Some e \<in> {o1, o2, o3})"
  using assms
proof (cases rule: validate_cases)
  case (checked u p1 w1 p2 w2 p3)
  from promise_all_Inl[OF checked(7)[symmetric]] have "p1 = Inl e \<or> p2 = Inl e \<or> p3 = Inl e"
    by auto
  with checked(6) show ?thesis by auto
qed auto

lemma rebuilt_input:
  "user inp = Some u \<Longrightarrow>
   \<lparr>settings = settings inp,
    user = Some \<lparr>email = email u, username = username u, password = password u\<rparr>\<rparr> = (inp :: 's setup_input)"
  by (cases inp; cases u) simp

lemma setup_cases:
  assumes "setup' env ctx inp w = (r, w', t)"
  obtains
    (no_user) "user inp = None" "r = Inl TypeError" "w' = w" "t = []"
  | (invalid) u e where "user inp = Some u" "validate env inp w = (Inl e, w', t)" "r = Inl e"
  | (list_failed) u vs w1 e where "user inp = Some u"
      "validate env inp w = (Inr vs, w1, checks_ok)"
      "Migration_listPending env w1 = (Inl e, w')"
      "r = Inl e" "t = checks_ok @ [Ev ListPending (Some e)]"
  | (run_failed) u vs w1 ms w2 e where "user inp = Some u"
      "validate env inp w = (Inr vs, w1, checks_ok)"
      "Migration_listPending env w1 = (Inr ms, w2)"
      "Migration_run env ms w2 = (Inl e, w')"
      "r = Inl e" "t = checks_ok @ [Ev ListPending None, Ev Run (Some e)]"
  | (update_failed) u vs w1 ms w2 x w3 e where "user inp = Some u"
      "validate env inp w = (Inr vs, w1, checks_ok)"
      "Migration_listPending env w1 = (Inr ms, w2)"
      "Migration_run env ms w2 = (Inr x, w3)"
      "Settings_update env (settings inp) w3 = (Inl e, w')"
      "r = Inl e" "t = checks_ok @ [Ev ListPending None, Ev Run None, Ev Update (Some e)]"
  | (create_failed) u vs w1 ms w2 x w3 s' w4 e where "user inp = Some u"
      "validate env inp w = (Inr vs, w1, checks_ok)"
      "Migration_listPending env w1 = (Inr ms, w2)"
      "Migration_run env ms w2 = (Inr x, w3)"
      "Settings_update env (settings inp) w3 = (Inr s', w4)"
      "Users_createLocalUser env ctx (email u) (password u) (username u) w4 = (Inl e, w')"
      "r = Inl e"
      "t = checks_ok @ [Ev ListPending None, Ev Run None, Ev Update None, Ev CreateLocalUser (Some e)]"
  | (finalize_failed) u vs w1 ms w2 x w3 s' w4 usr w5 p1 w6 p2 e where "user inp = Some u"
      "validate env inp w = (Inr vs, w1, checks_ok)"
      "Migration_listPending env w1 = (Inr ms, w2)"
      "Migration_run env ms w2 = (Inr x, w3)"
      "Settings_update env (settings inp) w3 = (Inr s', w4)"
      "Users_createLocalUser env ctx (email u) (password u) (username u) w4 = (Inr usr, w5)"
      "Users_setRole env (user_id env usr) ''ADMIN'' w5 = (p1, w6)"
      "Users_confirmEmail env (user_id env usr) (email u) w6 = (p2, w')"
      "promise_all (settle env) [(SetRole, p1), (ConfirmEmail, p2)] = Inl e"
      "r = Inl e"
      "t = checks_ok @ [Ev ListPending None, Ev Run None, Ev Update None, Ev CreateLocalUser None,
                        Ev SetRole (rejection p1), Ev ConfirmEmail (rejection p2)]"
  | (complete) u vs w1 ms w2 x w3 s' w4 usr w5 y w6 z where "user inp = Some u"
      "validate env inp w = (Inr vs, w1, checks_ok)"
      "Migration_listPending env w1 = (Inr ms, w2)"
      "Migration_run env ms w2 = (Inr x, w3)"
      "Settings_update env (settings inp) w3 = (Inr s', w4)"
      "Users_createLocalUser env ctx (email u) (password u) (username u) w4 = (Inr usr, w5)"
      "Users_setRole env (user_id env usr) ''ADMIN'' w5 = (Inr y, w6)"
      "Users_confirmEmail env (user_id env usr) (email u) w6 = (Inr z, w')"
      "r = Inr \<lparr>r_settings = s', r_user = usr\<rparr>"
      "t = checks_ok @ [Ev ListPending None, Ev Run None, Ev Update None, Ev CreateLocalUser None,
                        Ev SetRole None, Ev ConfirmEmail None]"
proof (cases "user inp")
  case None
  with assms that(1) show ?thesis by (simp add: setup'_def throw_def)
next
  case (Some u)
  note inp = rebuilt_input[OF Some]
  note defs = setup'_def andThen_def call_def start_def await_def ret_def
  obtain rv w1 t1 where v: "validate env inp w = (rv, w1, t1)"
    by (cases "validate env inp w")
  show ?thesis
  proof (cases rv)
    case (Inl e)
    with assms Some inp v that(2)[OF Some, of e] show ?thesis by (simp add: defs)
  next
    case vs: (Inr vs)
    with v have t1: "t1 = checks_ok" by (simp add: validate_resolved_trace)
    note v = v[unfolded vs t1]
    obtain rl w2 where l: "Migration_listPending env w1 = (rl, w2)"
      by (cases "Migration_listPending env w1")
    show ?thesis
    proof (cases rl)
      case (Inl e)
      with assms Some inp v l that(3)[OF Some v, of e] show ?thesis by (simp add: defs)
    next
      case ms: (Inr ms)
      note l = l[unfolded ms]
      obtain rr w3 where rn: "Migration_run env ms w2 = (rr, w3)"
        by (cases "Migration_run env ms w2")
      show ?thesis
      proof (cases rr)
        case (Inl e)
        with assms Some inp v l rn that(4)[OF Some v l, of e] show ?thesis by (simp add: defs)
      next
        case x: (Inr x)
        note rn = rn[unfolded x]
        obtain ru w4 where up: "Settings_update env (settings inp) w3 = (ru, w4)"
          by (cases "Settings_update env (settings inp) w3")
        show ?thesis
        proof (cases ru)
          case (Inl e)
          with assms Some inp v l rn up that(5)[OF Some v l rn, of e] show ?thesis
            by (simp add: defs)
        next
          case s': (Inr s')
          note up = up[unfolded s']
          obtain rc w5 where cr:
            "Users_createLocalUser env ctx (email u) (password u) (username u) w4 = (rc, w5)"
            by (cases "Users_createLocalUser env ctx (email u) (password u) (username u) w4")
          show ?thesis
          proof (cases rc)
            case (Inl e)
            with assms Some inp v l rn up cr that(6)[OF Some v l rn up, of e] show ?thesis
              by (simp add: defs)
          next
            case usr: (Inr usr)
            note cr = cr[unfolded usr]
            obtain p1 w6 where sr: "Users_setRole env (user_id env usr) ''ADMIN'' w5 = (p1, w6)"
              by (cases "Users_setRole env (user_id env usr) ''ADMIN'' w5")
            obtain p2 w7 where ce: "Users_confirmEmail env (user_id env usr) (email u) w6 = (p2, w7)"
              by (cases "Users_confirmEmail env (user_id env usr) (email u) w6")
            show ?thesis
            proof (cases "promise_all (settle env) [(SetRole, p1), (ConfirmEmail, p2)]")
              case (Inl e)
              with assms Some inp v l rn up cr sr ce
              have "r = Inl e" "w' = w7"
                "t = checks_ok @ [Ev ListPending None, Ev Run None, Ev Update None,
                   Ev CreateLocalUser None, Ev SetRole (rejection p1), Ev ConfirmEmail (rejection p2)]"
                by (simp_all add: defs)
              with that(7)[OF Some v l rn up cr sr _ Inl] ce show ?thesis by simp
            next
              case (Inr ys)
              from promise_all_Inr[OF Inr] obtain y z where p: "p1 = Inr y" "p2 = Inr z"
                by (auto simp: rejection_None)
              from assms Some inp v l rn up cr sr ce Inr p
              have "r = Inr \<lparr>r_settings = s', r_user = usr\<rparr>" "w' = w7"
                "t = checks_ok @ [Ev ListPending None, Ev Run None, Ev Update None,
                   Ev CreateLocalUser None, Ev SetRole None, Ev ConfirmEmail None]"
                by (simp_all add: defs)
              with that(8)[OF Some v l rn up cr] sr ce p show ?thesis by simp
            qed
          qed
        qed
      qed
    qed
  qed
qed

lemma ref_select_read_only:
  "snd (Settings_select (ref_env lock faults tm) flds v) = v"
  by (simp add: ref_env_def inject_def store_select_def split: option.splits)

section \<open>Availability\<close>

text \<open>
  C4. \<^verbatim>\<open>isAvailable\<close> fails with \<open>ErrInstallLock\<close> when the installation lock is set.
  Otherwise it reads the configuration record: when a record is found it fails with
  \<open>ErrSettingsInit\<close>, when the read fails with \<open>ErrSettingsNotInit\<close> it succeeds, and
  any other failure of the read is the failure of \<^verbatim>\<open>isAvailable\<close>, unchanged.
\<close>

theorem isAvailable_outcome:
  "fst (isAvailable env w) =
     (if INSTALL_LOCK env then Inl ErrInstallLock
      else case fst (Settings_select env ''id'' w) of
             Inr s \<Rightarrow> Inl ErrSettingsInit
           | Inl e \<Rightarrow> if e = ErrSettingsNotInit then Inr () else Inl e)"
  by (simp add: isAvailable_def io_defs split: prod.splits sum.splits)

theorem isAvailable_outcome_witness:
  "fst (isAvailable (ref_env True no_faults at_once) store0) = Inl ErrInstallLock \<and>
   fst (isAvailable (ref_env False no_faults at_once) store1) = Inl ErrSettingsInit \<and>
   fst (isAvailable (ref_env False no_faults at_once) store0) = Inr () \<and>
   fst (isAvailable (ref_env False (no_faults(Select := Some (ErrOther ''db down''))) at_once) store0)
     = Inl (ErrOther ''db down'')"
  using isAvailable_outcome[of "ref_env True no_faults at_once" store0]
    isAvailable_outcome[of "ref_env False no_faults at_once" store1]
    isAvailable_outcome[of "ref_env False no_faults at_once" store0]
    isAvailable_outcome[of "ref_env False (no_faults(Select := Some (ErrOther ''db down''))) at_once" store0]
  by (simp add: store_defs)

text \<open>
  C10. \<^verbatim>\<open>isAvailable\<close> is read-only. Its trace holds no call when the lock is set and
  exactly one call otherwise, the read of the configuration record: it never updates the
  configuration, lists or runs migrations, or creates or changes an account. The state
  it leaves is the one the read leaves; so when the read itself changes nothing, any number
  of calls in a row leaves the external state as it was.
\<close>

theorem isAvailable_read_only:
  "snd (snd (isAvailable env w)) =
     (if INSTALL_LOCK env then []
      else [Ev Select (rejection (fst (Settings_select env ''id'' w)))]) \<and>
   fst (snd (isAvailable env w)) =
     (if INSTALL_LOCK env then w else snd (Settings_select env ''id'' w)) \<and>
   ((\<forall>v. snd (Settings_select env ''id'' v) = v) \<longrightarrow>
      ((\<lambda>v. fst (snd (isAvailable env v))) ^^ n) w = w)"
proof -
  have tr: "snd (snd (isAvailable env w)) =
     (if INSTALL_LOCK env then []
      else [Ev Select (rejection (fst (Settings_select env ''id'' w)))])"
    by (simp add: isAvailable_def io_defs split: prod.splits sum.splits)
  have st: "fst (snd (isAvailable env v)) =
     (if INSTALL_LOCK env then v else snd (Settings_select env ''id'' v))" for v
    by (simp add: isAvailable_def io_defs split: prod.splits sum.splits)
  have "((\<lambda>v. fst (snd (isAvailable env v))) ^^ n) w = w"
    if ro: "\<forall>v. snd (Settings_select env ''id'' v) = v"
  proof -
    from st ro have same: "(\<lambda>v. fst (snd (isAvailable env v))) = (\<lambda>v. v)" by auto
    show ?thesis unfolding same by (induction n) simp_all
  qed
  with tr st show ?thesis by blast
qed

theorem isAvailable_read_only_witness:
  "snd (snd (isAvailable (ref_env False no_faults at_once) store1)) = [Ev Select None] \<and>
   fst (snd (isAvailable (ref_env False no_faults at_once) store1)) = store1 \<and>
   ((\<lambda>v. fst (snd (isAvailable (ref_env False no_faults at_once) v))) ^^ 3) store1 = store1"
  using isAvailable_read_only[of "ref_env False no_faults at_once" store1 3]
  by (simp add: ref_select_read_only) (simp add: store_defs)

section \<open>Validation\<close>

text \<open>
  C5. When \<^verbatim>\<open>user.email\<close> is absent or empty (or any other falsy value),
  \<^verbatim>\<open>validate\<close> and \<^verbatim>\<open>setup\<close> fail with \<open>ErrMissingEmail\<close>; the trace is empty,
  so no validation check ran, no migration was listed or run, no configuration was written
  and no account was created, and the external state is the one before the call.
\<close>

theorem missing_email_fails_first:
  assumes "user inp = Some u" and "\<not> truthy (email u)"
  shows "validate env inp w = (Inl ErrMissingEmail, w, []) \<and>
         setup' env ctx inp w = (Inl ErrMissingEmail, w, [])"
  using assms by (simp add: validate_def setup'_def andThen_def throw_def)

theorem missing_email_fails_first_witness:
  "validate (ref_env False no_faults at_once)
     (input0\<lparr>user := Some \<lparr>email = JStr [], username = JStr ''admin'', password = JStr ''Str0ngPW!''\<rparr>\<rparr>)
     store0 = (Inl ErrMissingEmail, store0, []) \<and>
   setup' (ref_env False no_faults at_once) ()
     (input0\<lparr>user := Some \<lparr>email = JUndefined, username = JStr ''admin'', password = JStr ''Str0ngPW!''\<rparr>\<rparr>)
     store0 = (Inl ErrMissingEmail, store0, [])"
  using missing_email_fails_first[of
      "input0\<lparr>user := Some \<lparr>email = JStr [], username = JStr ''admin'', password = JStr ''Str0ngPW!''\<rparr>\<rparr>"
      "\<lparr>email = JStr [], username = JStr ''admin'', password = JStr ''Str0ngPW!''\<rparr>"
      "ref_env False no_faults at_once" store0 "()"]
    missing_email_fails_first[of
      "input0\<lparr>user := Some \<lparr>email = JUndefined, username = JStr ''admin'', password = JStr ''Str0ngPW!''\<rparr>\<rparr>"
      "\<lparr>email = JUndefined, username = JStr ''admin'', password = JStr ''Str0ngPW!''\<rparr>"
      "ref_env False no_faults at_once" store0 "()"]
  by simp

text \<open>
  C8. \<^verbatim>\<open>validate\<close> succeeds only if the email is present and the three checks of the
  fan-out (username, password, settings) all succeed. Whenever the email is present and at
  least one of the three checks fails, \<^verbatim>\<open>validate\<close> fails, with the error of one of
  the checks that failed: no failure is masked.
\<close>

theorem validate_fan_out:
  assumes "validate env inp w = (r, w', t)"
  shows "(\<forall>vs. r = Inr vs \<longrightarrow>
            (\<exists>u w1 w2 a b c. user inp = Some u \<and> truthy (email u) \<and>
               Users_isValidUsername env (username u) False w = (Inr a, w1) \<and>
               Users_isValidPassword env (password u) w1 = (Inr b, w2) \<and>
               SettingsModel_validate env (settings inp) w2 = (Inr c, w'))) \<and>
         (\<forall>u p1 w1 p2 w2 p3 w3. user inp = Some u \<and> truthy (email u) \<and>
               Users_isValidUsername env (username u) False w = (p1, w1) \<and>
               Users_isValidPassword env (password u) w1 = (p2, w2) \<and>
               SettingsModel_validate env (settings inp) w2 = (p3, w3) \<and>
               (rejection p1 \<noteq> None \<or> rejection p2 \<noteq> None \<or> rejection p3 \<noteq> None)
             \<longrightarrow> (\<exists>e. r = Inl e \<and> (p1 = Inl e \<or> p2 = Inl e \<or> p3 = Inl e)))"
  using assms
proof (cases rule: validate_cases)
  case no_user
  then show ?thesis by simp
next
  case (no_email u)
  then show ?thesis by simp
next
  case (checked u p1 w1 p2 w2 p3)
  let ?ps = "[(IsValidUsername, p1), (IsValidPassword, p2), (SettingsValidate, p3)]"
  have ok: "\<exists>a b c. p1 = Inr a \<and> p2 = Inr b \<and> p3 = Inr c" if "r = Inr vs" for vs
    using promise_all_Inr[of "settle env" ?ps vs] that checked(7)
    by (simp add: rejection_None)
  have bad: "\<exists>e. r = Inl e \<and> (p1 = Inl e \<or> p2 = Inl e \<or> p3 = Inl e)"
    if "rejection p1 \<noteq> None \<or> rejection p2 \<noteq> None \<or> rejection p3 \<noteq> None"
  proof -
    from that obtain c e where "(c, Inl e) \<in> set ?ps"
      by (auto simp: rejection_Some)
    from promise_all_rejects[OF this] obtain e' where e': "promise_all (settle env) ?ps = Inl e'"
      by blast
    from promise_all_Inl[OF e'] checked(7) e' show ?thesis by auto
  qed
  from checked(1-5) ok bad show ?thesis by auto
qed

theorem validate_fan_out_witness:
  "(\<exists>e. fst (validate (ref_env False (no_faults(IsValidPassword := Some (ErrOther ''weak password''),
                                              SettingsValidate := Some (ErrOther ''bad settings'')))
                         at_once) input0 store0) = Inl e \<and>
        (e = ErrOther ''weak password'' \<or> e = ErrOther ''bad settings'')) \<and>
   Users_isValidPassword (ref_env False no_faults at_once) (JStr ''Str0ngPW!'') store0 = (Inr (), store0)"
proof -
  let ?f = "no_faults(IsValidPassword := Some (ErrOther ''weak password''),
                      SettingsValidate := Some (ErrOther ''bad settings''))"
  let ?E = "ref_env False ?f at_once"
  let ?u = "\<lparr>email = JStr ''a@b.com'', username = JStr ''admin'', password = JStr ''Str0ngPW!''\<rparr>"
  obtain r w' t where v: "validate ?E input0 store0 = (r, w', t)"
    by (cases "validate ?E input0 store0")
  have "\<exists>e. r = Inl e \<and>
          ((Inr () :: error + unit) = Inl e \<or> (Inl (ErrOther ''weak password'') :: error + unit) = Inl e \<or>
           (Inl (ErrOther ''bad settings'') :: error + unit) = Inl e)"
    by (rule validate_fan_out[OF v, THEN conjunct2, rule_format,
          of ?u "Inr ()" store0 "Inl (ErrOther ''weak password'')" store0
             "Inl (ErrOther ''bad settings'')" store0])
       (simp add: store_defs)
  with v have bad: "\<exists>e. fst (validate ?E input0 store0) = Inl e \<and>
        (e = ErrOther ''weak password'' \<or> e = ErrOther ''bad settings'')"
    by auto
  obtain r0 w0 t0 where v0: "validate (ref_env False no_faults at_once) input0 store0 = (r0, w0, t0)"
    by (cases "validate (ref_env False no_faults at_once) input0 store0")
  then have "r0 = Inr [(), (), ()]"
    by (simp add: validate_def io_defs store_defs)
  with validate_fan_out[OF v0, THEN conjunct1, rule_format, of "[(), (), ()]"]
  have "Users_isValidPassword (ref_env False no_faults at_once) (JStr ''Str0ngPW!'') store0 = (Inr (), store0)"
    by (auto simp: store_defs)
  with bad show ?thesis by simp
qed

section \<open>The setup sequence\<close>

text \<open>The spec's scenario: a fresh instance, no lock, valid input, every collaborator succeeds.\<close>

lemma run0:
  "setup' (ref_env False no_faults at_once) () input0 store0 =
     (Inr \<lparr>r_settings = ''S'',
           r_user = UserRef 1\<rparr>,
      \<lparr>config = Some ''S'',
        accounts = [\<lparr>acc_id = 1, acc_email = JStr ''a@b.com'', acc_username = JStr ''admin'',
                     acc_password = JStr ''Str0ngPW!'', acc_role = Some ''ADMIN'',
                     acc_confirmed = True\<rparr>],
        applied = [''m1''], pending = []\<rparr>,
      checks_ok @ [Ev ListPending None, Ev Run None, Ev Update None, Ev CreateLocalUser None,
                   Ev SetRole None, Ev ConfirmEmail None])"
  by (simp add: setup'_def validate_def io_defs store_defs checks_ok_def Let_def)

text \<open>
  C1, as the code has it. \<^verbatim>\<open>setup\<close> succeeds only if \<^verbatim>\<open>validate\<close> succeeds on the
  same input, in the state at the time of the call. It does not check availability:
  it makes no read of the configuration record, and its outcome, its effects and its
  trace do not depend on the installation lock. Calling \<^verbatim>\<open>isAvailable\<close> first is left
  to the caller.
\<close>

theorem setup_success_requires_valid:
  assumes "setup' env ctx inp w = (Inr res, w', t)"
  shows "(\<exists>vs w1 t1. validate env inp w = (Inr vs, w1, t1)) \<and>
         (\<forall>ev \<in> set t. ev_call ev \<noteq> Select) \<and>
         setup' (env\<lparr>INSTALL_LOCK := b\<rparr>) ctx inp w = setup' env ctx inp w"
proof -
  have "setup' (env\<lparr>INSTALL_LOCK := b\<rparr>) ctx inp w = setup' env ctx inp w"
    by (simp add: setup'_def validate_def split: option.splits)
  moreover from assms have "(\<exists>vs w1 t1. validate env inp w = (Inr vs, w1, t1)) \<and>
         (\<forall>ev \<in> set t. ev_call ev \<noteq> Select)"
    by (cases rule: setup_cases) (auto simp: checks_ok_def)
  ultimately show ?thesis by simp
qed

theorem setup_success_requires_valid_witness:
  "(\<exists>vs w1 t1. validate (ref_env False no_faults at_once) input0 store0 = (Inr vs, w1, t1)) \<and>
   setup' ((ref_env False no_faults at_once)\<lparr>INSTALL_LOCK := True\<rparr>) () input0 store0 =
     setup' (ref_env False no_faults at_once) () input0 store0"
  using setup_success_requires_valid[OF run0, of True] by simp

text \<open>
  C1 as stated fails: with the lock set on a fresh store, and with the lock unset on a
  store that holds a configuration, \<^verbatim>\<open>isAvailable\<close> fails and \<^verbatim>\<open>setup\<close> succeeds.
\<close>

theorem setup_unavailable_counterexample:
  "fst (isAvailable (ref_env True no_faults at_once) store0) = Inl ErrInstallLock \<and>
   fst (setup' (ref_env True no_faults at_once) () input0 store0) =
     Inr \<lparr>r_settings = ''S'',
          r_user = UserRef 1\<rparr> \<and>
   fst (isAvailable (ref_env False no_faults at_once) store1) = Inl ErrSettingsInit \<and>
   fst (setup' (ref_env False no_faults at_once) () input0 store1) =
     Inr \<lparr>r_settings = ''S'',
          r_user = UserRef 1\<rparr>"
  by (simp add: isAvailable_def setup'_def validate_def io_defs store_defs Let_def)

text \<open>Two failing runs of the same scenario: account creation fails, a migration fails.\<close>

lemma run_create_fails:
  "setup' (ref_env False (no_faults(CreateLocalUser := Some (ErrOther ''email taken''))) at_once) ()
      input0 store0 =
     (Inl (ErrOther ''email taken''),
      \<lparr>config = Some ''S'', accounts = [], applied = [''m1''], pending = []\<rparr>,
      checks_ok @ [Ev ListPending None, Ev Run None, Ev Update None,
                   Ev CreateLocalUser (Some (ErrOther ''email taken''))])"
  by (simp add: setup'_def validate_def io_defs store_defs checks_ok_def Let_def)

lemma run_migration_fails:
  "setup' (ref_env False (no_faults(Run := Some (ErrOther ''migration failed''))) at_once) ()
      input0 store0 =
     (Inl (ErrOther ''migration failed''), store0,
      checks_ok @ [Ev ListPending None, Ev Run (Some (ErrOther ''migration failed''))])"
  by (simp add: setup'_def validate_def io_defs store_defs checks_ok_def Let_def)

text \<open>In the reference store only \<open>store_update\<close> writes the configuration.\<close>

lemma ref_create_keeps_config:
  "fst (Settings_select (ref_env lock faults tm) flds
          (snd (Users_createLocalUser (ref_env lock faults tm) ctx e p u v))) =
   fst (Settings_select (ref_env lock faults tm) flds v)"
  by (simp add: ref_env_def inject_def store_select_def store_createLocalUser_def Let_def
      split: option.splits)

lemma ref_update_config:
  "Settings_update (ref_env lock faults tm) s v = (Inr s', v') \<Longrightarrow> config v' = Some s"
  by (auto simp: ref_env_def inject_def store_update_def split: option.splits)

lemma ref_create_config:
  "Users_createLocalUser (ref_env lock faults tm) ctx e p u v = (r, v') \<Longrightarrow> config v' = config v"
  by (auto simp: ref_env_def inject_def store_createLocalUser_def Let_def split: option.splits)

lemma ref_setRole_config:
  "Users_setRole (ref_env lock faults tm) i rl v = (r, v') \<Longrightarrow> config v' = config v"
  by (auto simp: ref_env_def inject_def store_setRole_def split: option.splits)

lemma ref_confirmEmail_config:
  "Users_confirmEmail (ref_env lock faults tm) i e v = (r, v') \<Longrightarrow> config v' = config v"
  by (auto simp: ref_env_def inject_def store_confirmEmail_def split: option.splits)

text \<open>
  C6. In every execution of \<^verbatim>\<open>setup\<close>, a call that creates the account comes after a
  successful update of the configuration, and a call that updates the configuration comes
  after the pending migrations were listed and run with success. The migrations run are
  the very list \<^verbatim>\<open>listPending\<close> returned, run in the state it left; the configuration
  is updated in the state the run left, and the account is created in the state the update
  left. When listing or running the migrations fails, \<^verbatim>\<open>setup\<close> fails with that error,
  the configuration is never updated, no account is created, and the state left is the one
  the failed call left.
\<close>

theorem setup_precedence:
  assumes "setup' env ctx inp w = (r, w', t)"
  shows "(\<forall>t1 ev t2. t = t1 @ ev # t2 \<and> ev_call ev = CreateLocalUser \<longrightarrow> Ev Update None \<in> set t1) \<and>
         (\<forall>t1 ev t2. t = t1 @ ev # t2 \<and> ev_call ev = Update \<longrightarrow>
            (\<exists>t0 t0'. t1 = t0 @ Ev ListPending None # Ev Run None # t0')) \<and>
         (\<forall>e. Ev ListPending (Some e) \<in> set t \<longrightarrow>
            r = Inl e \<and> (\<forall>ev \<in> set t. ev_call ev \<notin> {Run, Update, CreateLocalUser}) \<and>
            (\<exists>vs w1. validate env inp w = (Inr vs, w1, checks_ok) \<and>
               Migration_listPending env w1 = (Inl e, w'))) \<and>
         (\<forall>e. Ev Run (Some e) \<in> set t \<longrightarrow>
            r = Inl e \<and> (\<forall>ev \<in> set t. ev_call ev \<notin> {Update, CreateLocalUser}) \<and>
            (\<exists>vs w1 ms w2. validate env inp w = (Inr vs, w1, checks_ok) \<and>
               Migration_listPending env w1 = (Inr ms, w2) \<and>
               Migration_run env ms w2 = (Inl e, w'))) \<and>
         (\<forall>ru. Ev Update ru \<in> set t \<longrightarrow>
            (\<exists>vs w1 ms w2 x w3 pu w4. validate env inp w = (Inr vs, w1, checks_ok) \<and>
               Migration_listPending env w1 = (Inr ms, w2) \<and>
               Migration_run env ms w2 = (Inr x, w3) \<and>
               Settings_update env (settings inp) w3 = (pu, w4) \<and> rejection pu = ru \<and>
               (ru \<noteq> None \<longrightarrow> w' = w4) \<and>
               (ru = None \<longrightarrow> (\<exists>rc. Ev CreateLocalUser rc \<in> set t)))) \<and>
         (\<forall>rc. Ev CreateLocalUser rc \<in> set t \<longrightarrow>
            (\<exists>u vs w1 ms w2 x w3 s' w4 pc w5. user inp = Some u \<and>
               validate env inp w = (Inr vs, w1, checks_ok) \<and>
               Migration_listPending env w1 = (Inr ms, w2) \<and>
               Migration_run env ms w2 = (Inr x, w3) \<and>
               Settings_update env (settings inp) w3 = (Inr s', w4) \<and>
               Users_createLocalUser env ctx (email u) (password u) (username u) w4 = (pc, w5) \<and>
               rejection pc = rc \<and> (rc \<noteq> None \<longrightarrow> w' = w5) \<and>
               (\<forall>usr. pc = Inr usr \<longrightarrow>
                  (\<exists>p1 w6 p2. Users_setRole env (user_id env usr) ''ADMIN'' w5 = (p1, w6) \<and>
                     Users_confirmEmail env (user_id env usr) (email u) w6 = (p2, w')))))"
  (is "?A \<and> ?B \<and> ?C \<and> ?D \<and> ?E \<and> ?F")
  using assms
proof (cases rule: setup_cases)
  case no_user
  then show ?thesis by simp
next
  case (invalid u e)
  from validate_rejected_trace[OF invalid(2)] show ?thesis
    by (auto simp: append_eq_Cons_conv Cons_eq_append_conv)
next
  case (list_failed u vs w1 e)
  note t = list_failed(5)[unfolded checks_ok_def]
  have ?A ?B using t by (auto simp: append_eq_Cons_conv Cons_eq_append_conv)
  moreover have ?C using t list_failed(2,3,4) by auto
  moreover have ?D ?E ?F using t by auto
  ultimately show ?thesis by blast
next
  case (run_failed u vs w1 ms w2 e)
  note t = run_failed(6)[unfolded checks_ok_def]
  have ?A ?B using t by (auto simp: append_eq_Cons_conv Cons_eq_append_conv)
  moreover have ?D using t run_failed(2,3,4,5) by auto
  moreover have ?C ?E ?F using t by auto
  ultimately show ?thesis by blast
next
  case (update_failed u vs w1 ms w2 x w3 e)
  note t = update_failed(7)[unfolded checks_ok_def]
  have ?A ?B using t by (auto simp: append_eq_Cons_conv Cons_eq_append_conv)
  moreover have ?E
  proof (intro allI impI)
    fix ru assume "Ev Update ru \<in> set t"
    with t have ru: "ru = Some e" by auto
    from update_failed(2,3,4,5) ru
    show "\<exists>vs w1 ms w2 x w3 pu w4. validate env inp w = (Inr vs, w1, checks_ok) \<and>
               Migration_listPending env w1 = (Inr ms, w2) \<and>
               Migration_run env ms w2 = (Inr x, w3) \<and>
               Settings_update env (settings inp) w3 = (pu, w4) \<and> rejection pu = ru \<and>
               (ru \<noteq> None \<longrightarrow> w' = w4) \<and>
               (ru = None \<longrightarrow> (\<exists>rc. Ev CreateLocalUser rc \<in> set t))"
      by (intro exI[of _ vs] exI[of _ w1] exI[of _ ms] exI[of _ w2] exI[of _ x] exI[of _ w3]
          exI[of _ "Inl e"] exI[of _ w']) simp
  qed
  moreover have ?C ?D ?F using t by auto
  ultimately show ?thesis by blast
next
  case (create_failed u vs w1 ms w2 x w3 s' w4 e)
  note t = create_failed(8)[unfolded checks_ok_def]
  have ?A ?B using t by (auto simp: append_eq_Cons_conv Cons_eq_append_conv)
  moreover have ?E
  proof (intro allI impI)
    fix ru assume "Ev Update ru \<in> set t"
    with t have ru: "ru = None" by auto
    from create_failed(2,3,4,5) ru t
    show "\<exists>vs w1 ms w2 x w3 pu w4. validate env inp w = (Inr vs, w1, checks_ok) \<and>
               Migration_listPending env w1 = (Inr ms, w2) \<and>
               Migration_run env ms w2 = (Inr x, w3) \<and>
               Settings_update env (settings inp) w3 = (pu, w4) \<and> rejection pu = ru \<and>
               (ru \<noteq> None \<longrightarrow> w' = w4) \<and>
               (ru = None \<longrightarrow> (\<exists>rc. Ev CreateLocalUser rc \<in> set t))"
      by (intro exI[of _ vs] exI[of _ w1] exI[of _ ms] exI[of _ w2] exI[of _ x] exI[of _ w3]
          exI[of _ "Inr s'"] exI[of _ w4]) simp
  qed
  moreover have ?F
  proof (intro allI impI)
    fix rc assume "Ev CreateLocalUser rc \<in> set t"
    with t have rc: "rc = Some e" by auto
    from create_failed(1,2,3,4,5,6) rc
    show "\<exists>u vs w1 ms w2 x w3 s' w4 pc w5. user inp = Some u \<and>
               validate env inp w = (Inr vs, w1, checks_ok) \<and>
               Migration_listPending env w1 = (Inr ms, w2) \<and>
               Migration_run env ms w2 = (Inr x, w3) \<and>
               Settings_update env (settings inp) w3 = (Inr s', w4) \<and>
               Users_createLocalUser env ctx (email u) (password u) (username u) w4 = (pc, w5) \<and>
               rejection pc = rc \<and> (rc \<noteq> None \<longrightarrow> w' = w5) \<and>
               (\<forall>usr. pc = Inr usr \<longrightarrow>
                  (\<exists>p1 w6 p2. Users_setRole env (user_id env usr) ''ADMIN'' w5 = (p1, w6) \<and>
                     Users_confirmEmail env (user_id env usr) (email u) w6 = (p2, w')))"
      by (intro exI[of _ u] exI[of _ vs] exI[of _ w1] exI[of _ ms] exI[of _ w2] exI[of _ x]
          exI[of _ w3] exI[of _ s'] exI[of _ w4] exI[of _ "Inl e"] exI[of _ w']) simp
  qed
  moreover have ?C ?D using t by auto
  ultimately show ?thesis by blast
next
  case (finalize_failed u vs w1 ms w2 x w3 s' w4 usr w5 p1 w6 p2 e)
  note t = finalize_failed(11)[unfolded checks_ok_def]
  have ?A ?B using t by (auto simp: append_eq_Cons_conv Cons_eq_append_conv)
  moreover have ?E
  proof (intro allI impI)
    fix ru assume "Ev Update ru \<in> set t"
    with t have ru: "ru = None" by auto
    from finalize_failed(2,3,4,5) ru t
    show "\<exists>vs w1 ms w2 x w3 pu w4. validate env inp w = (Inr vs, w1, checks_ok) \<and>
               Migration_listPending env w1 = (Inr ms, w2) \<and>
               Migration_run env ms w2 = (Inr x, w3) \<and>
               Settings_update env (settings inp) w3 = (pu, w4) \<and> rejection pu = ru \<and>
               (ru \<noteq> None \<longrightarrow> w' = w4) \<and>
               (ru = None \<longrightarrow> (\<exists>rc. Ev CreateLocalUser rc \<in> set t))"
      by (intro exI[of _ vs] exI[of _ w1] exI[of _ ms] exI[of _ w2] exI[of _ x] exI[of _ w3]
          exI[of _ "Inr s'"] exI[of _ w4]) simp
  qed
  moreover have ?F
  proof (intro allI impI)
    fix rc assume "Ev CreateLocalUser rc \<in> set t"
    with t have rc: "rc = None" by auto
    from finalize_failed(1-8) rc
    show "\<exists>u vs w1 ms w2 x w3 s' w4 pc w5. user inp = Some u \<and>
               validate env inp w = (Inr vs, w1, checks_ok) \<and>
               Migration_listPending env w1 = (Inr ms, w2) \<and>
               Migration_run env ms w2 = (Inr x, w3) \<and>
               Settings_update env (settings inp) w3 = (Inr s', w4) \<and>
               Users_createLocalUser env ctx (email u) (password u) (username u) w4 = (pc, w5) \<and>
               rejection pc = rc \<and> (rc \<noteq> None \<longrightarrow> w' = w5) \<and>
               (\<forall>usr. pc = Inr usr \<longrightarrow>
                  (\<exists>p1 w6 p2. Users_setRole env (user_id env usr) ''ADMIN'' w5 = (p1, w6) \<and>
                     Users_confirmEmail env (user_id env usr) (email u) w6 = (p2, w')))"
      by (intro exI[of _ u] exI[of _ vs] exI[of _ w1] exI[of _ ms] exI[of _ w2] exI[of _ x]
          exI[of _ w3] exI[of _ s'] exI[of _ w4] exI[of _ "Inr usr"] exI[of _ w5]) simp
  qed
  moreover have ?C ?D using t by auto
  ultimately show ?thesis by blast
next
  case (complete u vs w1 ms w2 x w3 s' w4 usr w5 y w6 z)
  note t = complete(10)[unfolded checks_ok_def]
  have ?A ?B using t by (auto simp: append_eq_Cons_conv Cons_eq_append_conv)
  moreover have ?E
  proof (intro allI impI)
    fix ru assume "Ev Update ru \<in> set t"
    with t have ru: "ru = None" by auto
    from complete(2,3,4,5) ru t
    show "\<exists>vs w1 ms w2 x w3 pu w4. validate env inp w = (Inr vs, w1, checks_ok) \<and>
               Migration_listPending env w1 = (Inr ms, w2) \<and>
               Migration_run env ms w2 = (Inr x, w3) \<and>
               Settings_update env (settings inp) w3 = (pu, w4) \<and> rejection pu = ru \<and>
               (ru \<noteq> None \<longrightarrow> w' = w4) \<and>
               (ru = None \<longrightarrow> (\<exists>rc. Ev CreateLocalUser rc \<in> set t))"
      by (intro exI[of _ vs] exI[of _ w1] exI[of _ ms] exI[of _ w2] exI[of _ x] exI[of _ w3]
          exI[of _ "Inr s'"] exI[of _ w4]) simp
  qed
  moreover have ?F
  proof (intro allI impI)
    fix rc assume "Ev CreateLocalUser rc \<in> set t"
    with t have rc: "rc = None" by auto
    from complete(1-8) rc
    show "\<exists>u vs w1 ms w2 x w3 s' w4 pc w5. user inp = Some u \<and>
               validate env inp w = (Inr vs, w1, checks_ok) \<and>
               Migration_listPending env w1 = (Inr ms, w2) \<and>
               Migration_run env ms w2 = (Inr x, w3) \<and>
               Settings_update env (settings inp) w3 = (Inr s', w4) \<and>
               Users_createLocalUser env ctx (email u) (password u) (username u) w4 = (pc, w5) \<and>
               rejection pc = rc \<and> (rc \<noteq> None \<longrightarrow> w' = w5) \<and>
               (\<forall>usr. pc = Inr usr \<longrightarrow>
                  (\<exists>p1 w6 p2. Users_setRole env (user_id env usr) ''ADMIN'' w5 = (p1, w6) \<and>
                     Users_confirmEmail env (user_id env usr) (email u) w6 = (p2, w')))"
      by (intro exI[of _ u] exI[of _ vs] exI[of _ w1] exI[of _ ms] exI[of _ w2] exI[of _ x]
          exI[of _ w3] exI[of _ s'] exI[of _ w4] exI[of _ "Inr usr"] exI[of _ w5]) simp
  qed
  moreover have ?C ?D using t by auto
  ultimately show ?thesis by blast
qed

theorem setup_precedence_witness:
  "Ev Update None \<in> set (checks_ok @ [Ev ListPending None, Ev Run None, Ev Update None]) \<and>
   (\<exists>vs w1 ms w2. validate (ref_env False (no_faults(Run := Some (ErrOther ''migration failed''))) at_once)
                     input0 store0 = (Inr vs, w1, checks_ok) \<and>
       Migration_listPending (ref_env False (no_faults(Run := Some (ErrOther ''migration failed''))) at_once)
         w1 = (Inr ms, w2) \<and>
       Migration_run (ref_env False (no_faults(Run := Some (ErrOther ''migration failed''))) at_once)
         ms w2 = (Inl (ErrOther ''migration failed''), store0)) \<and>
   (\<exists>vs w1 w2 x w3 pu w4.
       validate (ref_env False no_faults at_once) input0 store0 = (Inr vs, w1, checks_ok) \<and>
       Migration_listPending (ref_env False no_faults at_once) w1 = (Inr [''m1''], w2) \<and>
       Migration_run (ref_env False no_faults at_once) [''m1''] w2 = (Inr x, w3) \<and>
       applied w3 = [''m1''] \<and> pending w3 = [] \<and>
       Settings_update (ref_env False no_faults at_once) (settings input0) w3 = (pu, w4))"
proof -
  let ?E = "ref_env False no_faults at_once"
  have "Ev Update None \<in> set (checks_ok @ [Ev ListPending None, Ev Run None, Ev Update None])"
    by (rule setup_precedence[OF run0, THEN conjunct1, rule_format,
          of "checks_ok @ [Ev ListPending None, Ev Run None, Ev Update None]"
             "Ev CreateLocalUser None" "[Ev SetRole None, Ev ConfirmEmail None]"]) simp
  moreover
  have "\<exists>vs w1 ms w2. validate (ref_env False (no_faults(Run := Some (ErrOther ''migration failed''))) at_once)
                     input0 store0 = (Inr vs, w1, checks_ok) \<and>
       Migration_listPending (ref_env False (no_faults(Run := Some (ErrOther ''migration failed''))) at_once)
         w1 = (Inr ms, w2) \<and>
       Migration_run (ref_env False (no_faults(Run := Some (ErrOther ''migration failed''))) at_once)
         ms w2 = (Inl (ErrOther ''migration failed''), store0)"
    using setup_precedence[OF run_migration_fails, THEN conjunct2, THEN conjunct2, THEN conjunct2,
        THEN conjunct1, rule_format, of "ErrOther ''migration failed''"]
    by simp
  moreover
  have "Ev Update None \<in> set (checks_ok @ [Ev ListPending None, Ev Run None, Ev Update None,
          Ev CreateLocalUser None, Ev SetRole None, Ev ConfirmEmail None])"
    by simp
  from setup_precedence[OF run0, THEN conjunct2, THEN conjunct2, THEN conjunct2, THEN conjunct2,
      THEN conjunct1, rule_format, OF this]
  obtain vs w1 ms w2 x w3 pu w4 where
    v: "validate ?E input0 store0 = (Inr vs, w1, checks_ok)" and
    l: "Migration_listPending ?E w1 = (Inr ms, w2)" and
    rn: "Migration_run ?E ms w2 = (Inr x, w3)" and
    up: "Settings_update ?E (settings input0) w3 = (pu, w4)"
    by blast
  from v have w1: "w1 = store0" by (simp add: validate_def io_defs store_defs)
  from l w1 have ms: "ms = [''m1'']" "w2 = store0" by (auto simp: store_defs)
  from rn ms have "applied w3 = [''m1'']" "pending w3 = []" by (auto simp: store_defs)
  with v l rn up ms have "\<exists>vs w1 w2 x w3 pu w4.
       validate ?E input0 store0 = (Inr vs, w1, checks_ok) \<and>
       Migration_listPending ?E w1 = (Inr [''m1''], w2) \<and>
       Migration_run ?E [''m1''] w2 = (Inr x, w3) \<and>
       applied w3 = [''m1''] \<and> pending w3 = [] \<and>
       Settings_update ?E (settings input0) w3 = (pu, w4)"
    by blast
  ultimately show ?thesis by blast
qed

text \<open>
  C7. When account creation fails, \<^verbatim>\<open>setup\<close> fails with that very error; the
  configuration had been updated with success, the failed creation is the last call made,
  and the state \<^verbatim>\<open>setup\<close> leaves is the one the failed creation left from the state the
  update produced: nothing deletes or rolls back the configuration. So, provided account
  creation itself does not touch the configuration, reading the configuration afterwards
  gives what reading it right after the update gave.
\<close>

theorem create_failure_keeps_configuration:
  assumes "setup' env ctx inp w = (r, w', t)" and "Ev CreateLocalUser (Some e) \<in> set t"
  shows "r = Inl e \<and>
         t = checks_ok @ [Ev ListPending None, Ev Run None, Ev Update None,
                          Ev CreateLocalUser (Some e)] \<and>
         (\<exists>u w3 s' w4. user inp = Some u \<and>
            Settings_update env (settings inp) w3 = (Inr s', w4) \<and>
            Users_createLocalUser env ctx (email u) (password u) (username u) w4 = (Inl e, w') \<and>
            ((\<forall>c a b d v. fst (Settings_select env ''id'' (snd (Users_createLocalUser env c a b d v))) =
                          fst (Settings_select env ''id'' v)) \<longrightarrow>
             fst (Settings_select env ''id'' w') = fst (Settings_select env ''id'' w4)))"
  using assms
proof (cases rule: setup_cases)
  case (invalid u e')
  from validate_rejected_trace[OF invalid(2)] assms(2) show ?thesis by auto
next
  case (create_failed u vs w1 ms w2 x w3 s' w4 e')
  with assms(2) have e: "e' = e" by (auto simp: checks_ok_def)
  have "fst (Settings_select env ''id'' w') = fst (Settings_select env ''id'' w4)"
    if "\<forall>c a b d v. fst (Settings_select env ''id'' (snd (Users_createLocalUser env c a b d v))) =
                          fst (Settings_select env ''id'' v)"
    using that[rule_format, of ctx "email u" "password u" "username u" w4] create_failed(6)
    by simp
  with create_failed e show ?thesis by blast
qed (auto simp: checks_ok_def)

theorem create_failure_keeps_configuration_witness:
  "fst (setup' (ref_env False (no_faults(CreateLocalUser := Some (ErrOther ''email taken''))) at_once) ()
          input0 store0) = Inl (ErrOther ''email taken'') \<and>
   fst (Settings_select (ref_env False (no_faults(CreateLocalUser := Some (ErrOther ''email taken''))) at_once)
          ''id''
          (fst (snd (setup' (ref_env False (no_faults(CreateLocalUser := Some (ErrOther ''email taken'')))
                                at_once) () input0 store0)))) = Inr ''S''"
proof -
  let ?E = "ref_env False (no_faults(CreateLocalUser := Some (ErrOther ''email taken''))) at_once"
  let ?w' = "\<lparr>config = Some ''S'', accounts = [], applied = [''m1''], pending = []\<rparr>"
  have "Ev CreateLocalUser (Some (ErrOther ''email taken'')) \<in>
        set (checks_ok @ [Ev ListPending None, Ev Run None, Ev Update None,
                          Ev CreateLocalUser (Some (ErrOther ''email taken''))])"
    by simp
  from create_failure_keeps_configuration[OF run_create_fails this]
  obtain w3 s' w4 where up: "Settings_update ?E (settings input0) w3 = (Inr s', w4)"
    and fr: "(\<forall>c a b d v. fst (Settings_select ?E ''id'' (snd (Users_createLocalUser ?E c a b d v))) =
                          fst (Settings_select ?E ''id'' v)) \<longrightarrow>
             fst (Settings_select ?E ''id'' ?w') = fst (Settings_select ?E ''id'' w4)"
    by blast
  from fr have "fst (Settings_select ?E ''id'' ?w') = fst (Settings_select ?E ''id'' w4)"
    by (simp add: ref_create_keeps_config)
  moreover from up have "fst (Settings_select ?E ''id'' w4) = Inr ''S''"
    by (auto simp: store_defs)
  ultimately show ?thesis by (simp add: run_create_fails)
qed

text \<open>
  C9. In every execution of \<^verbatim>\<open>setup\<close>: no collaborator is called twice (no retry);
  after a call that failed, the only later calls are those of the same \<^verbatim>\<open>Promise.all\<close>,
  which were started with it (no later stage runs, no recovery); when a call failed,
  \<^verbatim>\<open>setup\<close> fails with the error of a failed call of that stage; a failure of
  listing or running the migrations, of the configuration update or of account creation is
  the failure of \<^verbatim>\<open>setup\<close>, the same error value; and \<^verbatim>\<open>setup\<close> never fails with an
  error of its own making other than the TypeError and the missing email raised before any
  call.
\<close>

theorem setup_fail_fast:
  assumes "setup' env ctx inp w = (r, w', t)"
  shows "distinct (map ev_call t) \<and>
         (\<forall>t1 ev t2. t = t1 @ ev # t2 \<and> ev_err ev \<noteq> None \<longrightarrow>
            (\<forall>ev' \<in> set t2. stage (ev_call ev') = stage (ev_call ev))) \<and>
         (\<forall>c e. Ev c (Some e) \<in> set t \<longrightarrow>
            (\<exists>c' e'. r = Inl e' \<and> Ev c' (Some e') \<in> set t \<and> stage c' = stage c)) \<and>
         (\<forall>c e. Ev c (Some e) \<in> set t \<and> c \<in> {ListPending, Run, Update, CreateLocalUser} \<longrightarrow>
            r = Inl e) \<and>
         (\<forall>e. r = Inl e \<longrightarrow>
            t = [] \<and> w' = w \<and> (e = TypeError \<or> e = ErrMissingEmail) \<or> (\<exists>c. Ev c (Some e) \<in> set t))"
  (is "?A \<and> ?B \<and> ?C \<and> ?D \<and> ?E")
  using assms
proof (cases rule: setup_cases)
  case no_user
  then show ?thesis by simp
next
  case (invalid u e)
  from validate_rejected_trace[OF invalid(2)] invalid(3)
  consider "t = []" "w' = w" "e = TypeError \<or> e = ErrMissingEmail"
    | o1 o2 o3 where "t = [Ev IsValidUsername o1, Ev IsValidPassword o2, Ev SettingsValidate o3]"
        "o1 = Some e \<or> o2 = Some e \<or> o3 = Some e"
    by auto
  then show ?thesis
  proof cases
    case 1
    with invalid(3) show ?thesis by simp
  next
    case 2
    have ?A using 2 by simp
    moreover have ?B using 2 by (auto simp: append_eq_Cons_conv Cons_eq_append_conv)
    moreover have ?C
    proof (intro allI impI)
      fix c e0 assume "Ev c (Some e0) \<in> set t"
      with 2(1) have "stage c = 1" by auto
      moreover from 2 have "\<exists>c'. Ev c' (Some e) \<in> set t \<and> stage c' = 1" by force
      ultimately show "\<exists>c' e'. r = Inl e' \<and> Ev c' (Some e') \<in> set t \<and> stage c' = stage c"
        using invalid(3) by auto
    qed
    moreover have ?D using 2 by auto
    moreover have ?E using 2 invalid(3) by auto
    ultimately show ?thesis by blast
  qed
next
  case (list_failed u vs w1 e)
  then show ?thesis
    by (auto simp: checks_ok_def append_eq_Cons_conv Cons_eq_append_conv)
next
  case (run_failed u vs w1 ms w2 e)
  then show ?thesis
    by (auto simp: checks_ok_def append_eq_Cons_conv Cons_eq_append_conv)
next
  case (update_failed u vs w1 ms w2 x w3 e)
  then show ?thesis
    by (auto simp: checks_ok_def append_eq_Cons_conv Cons_eq_append_conv)
next
  case (create_failed u vs w1 ms w2 x w3 s' w4 e)
  then show ?thesis
    by (auto simp: checks_ok_def append_eq_Cons_conv Cons_eq_append_conv)
next
  case (finalize_failed u vs w1 ms w2 x w3 s' w4 usr w5 p1 w6 p2 e)
  note t = finalize_failed(11)[unfolded checks_ok_def]
  from promise_all_Inl[OF finalize_failed(9)] have pe: "p1 = Inl e \<or> p2 = Inl e" by auto
  have ?A using t by simp
  moreover have ?B using t by (auto simp: append_eq_Cons_conv Cons_eq_append_conv)
  moreover have ?C
  proof (intro allI impI)
    fix c e0 assume "Ev c (Some e0) \<in> set t"
    with t have "stage c = 6" by auto
    moreover from t pe have "\<exists>c'. Ev c' (Some e) \<in> set t \<and> stage c' = 6" by force
    ultimately show "\<exists>c' e'. r = Inl e' \<and> Ev c' (Some e') \<in> set t \<and> stage c' = stage c"
      using finalize_failed(10) by auto
  qed
  moreover have ?D using t by auto
  moreover have ?E using t pe finalize_failed(10) by auto
  ultimately show ?thesis by blast
next
  case (complete u vs w1 ms w2 x w3 s' w4 usr w5 y w6 z)
  then show ?thesis
    by (auto simp: checks_ok_def append_eq_Cons_conv Cons_eq_append_conv)
qed

theorem setup_fail_fast_witness:
  "distinct (map ev_call (snd (snd (setup'
      (ref_env False (no_faults(CreateLocalUser := Some (ErrOther ''email taken''))) at_once) ()
      input0 store0)))) \<and>
   fst (setup' (ref_env False (no_faults(CreateLocalUser := Some (ErrOther ''email taken''))) at_once) ()
      input0 store0) = Inl (ErrOther ''email taken'')"
proof -
  let ?E = "ref_env False (no_faults(CreateLocalUser := Some (ErrOther ''email taken''))) at_once"
  obtain r w' t where run: "setup' ?E () input0 store0 = (r, w', t)"
    by (cases "setup' ?E () input0 store0")
  with run_create_fails have "Ev CreateLocalUser (Some (ErrOther ''email taken'')) \<in> set t"
    by simp
  with setup_fail_fast[OF run] have "distinct (map ev_call t)" "r = Inl (ErrOther ''email taken'')"
    by blast+
  with run show ?thesis by simp
qed

text \<open>Facts of the reference account store.\<close>

lemma fresh_id_fresh: "a \<in> set as \<Longrightarrow> acc_id a \<noteq> fresh_id as"
proof -
  have "a \<in> set as \<Longrightarrow> acc_id a \<le> foldr max (map acc_id as) 0"
    by (induction as) auto
  then show "a \<in> set as \<Longrightarrow> acc_id a \<noteq> fresh_id as"
    by (auto simp: fresh_id_def)
qed

lemma find_fresh:
  assumes "\<forall>x \<in> set as. acc_id x \<noteq> h"
  shows "List.find (\<lambda>x. acc_id x = h) as = None"
  using assms by (induction as) auto

lemma find_created:
  assumes "\<forall>x \<in> set as. acc_id x \<noteq> h" and "\<And>x. acc_id (f x) = acc_id x" and "acc_id a = h"
  shows "List.find (\<lambda>x. acc_id x = h) (map f (as @ [a])) = Some (f a)"
  using assms by (induction as) auto

lemma ref_createLocalUser:
  assumes "Users_createLocalUser (ref_env lock faults tm) ctx e p u v = (Inr usr, v')"
  shows "usr = UserRef (fresh_id (accounts v)) \<and>
         accounts v' = accounts v @
           [\<lparr>acc_id = fresh_id (accounts v), acc_email = e, acc_username = u, acc_password = p,
             acc_role = None, acc_confirmed = False\<rparr>]"
  using assms
  by (auto simp: ref_env_def inject_def store_createLocalUser_def Let_def split: option.splits)

lemma ref_setRole:
  assumes "Users_setRole (ref_env lock faults tm) i rl v = (Inr y, v')"
  shows "accounts v' = map (\<lambda>a. if acc_id a = i then a\<lparr>acc_role := Some rl\<rparr> else a) (accounts v)"
  using assms by (auto simp: ref_env_def inject_def store_setRole_def split: option.splits)

lemma ref_confirmEmail:
  assumes "Users_confirmEmail (ref_env lock faults tm) i e v = (Inr z, v')"
  shows "accounts v' = map (\<lambda>a. if acc_id a = i then a\<lparr>acc_confirmed := True\<rparr> else a) (accounts v)"
  using assms by (auto simp: ref_env_def inject_def store_confirmEmail_def split: option.splits)

lemma ref_accounts_kept:
  "Settings_update (ref_env lock faults tm) s v = (r1, v1) \<Longrightarrow> accounts v1 = accounts v"
  "Migration_listPending (ref_env lock faults tm) v = (r2, v2) \<Longrightarrow> accounts v2 = accounts v"
  "Migration_run (ref_env lock faults tm) ms v = (r3, v3) \<Longrightarrow> accounts v3 = accounts v"
  by (auto simp: ref_env_def inject_def store_update_def store_listPending_def store_run_def
      split: option.splits)

lemma ref_validate_state:
  "validate (ref_env lock faults tm) inp v = (r, v', t) \<Longrightarrow> v' = v"
  by (erule validate_cases)
     (auto simp: ref_env_def inject_def accept_def split: option.splits)

text \<open>
  C3. On full success of \<^verbatim>\<open>setup\<close>, the user of the returned \<^verbatim>\<open>{ settings, user }\<close>
  has the administrator role and a confirmed email. The user is the account object that
  \<^verbatim>\<open>createLocalUser\<close> made from the input's email, username and password (it did not
  exist before the call); read in the state \<^verbatim>\<open>setup\<close> leaves, its role is
  \<^verbatim>\<open>ADMIN\<close> and its email is confirmed. This is a fact of \<^verbatim>\<open>setup\<close> over the account
  store modelled from the spec, in which the returned user is the stored object.
\<close>

theorem setup_returns_admin:
  assumes "setup' (ref_env lock faults tm) ctx inp w = (Inr res, w', t)"
  shows "\<exists>u a. user inp = Some u \<and> account_of w (r_user res) = None \<and>
           account_of w' (r_user res) = Some a \<and>
           acc_role a = Some ''ADMIN'' \<and> acc_confirmed a \<and>
           acc_email a = email u \<and> acc_username a = username u \<and> acc_password a = password u"
  using assms
proof (cases rule: setup_cases)
  case (complete u vs w1 ms w2 x w3 s' w4 usr w5 y w6 z)
  let ?h = "fresh_id (accounts w)"
  let ?a = "\<lparr>acc_id = ?h, acc_email = email u, acc_username = username u,
             acc_password = password u, acc_role = None, acc_confirmed = False\<rparr>"
  let ?f = "\<lambda>a. if acc_id a = ?h then a\<lparr>acc_role := Some ''ADMIN''\<rparr> else a"
  let ?g = "\<lambda>a. if acc_id a = ?h then a\<lparr>acc_confirmed := True\<rparr> else a"
  from ref_validate_state[OF complete(2)] ref_accounts_kept(2)[OF complete(3)]
    ref_accounts_kept(3)[OF complete(4)] ref_accounts_kept(1)[OF complete(5)]
  have w4: "accounts w4 = accounts w" by simp
  from ref_createLocalUser[OF complete(6)] w4
  have usr: "usr = UserRef ?h" and w5: "accounts w5 = accounts w @ [?a]" by simp_all
  from ref_setRole[OF complete(7)] usr
  have w6: "accounts w6 = map ?f (accounts w5)" by (simp add: ref_env_def)
  from ref_confirmEmail[OF complete(8)] usr
  have w': "accounts w' = map ?g (accounts w6)" by (simp add: ref_env_def)
  have fresh: "\<forall>x \<in> set (accounts w). acc_id x \<noteq> ?h"
    using fresh_id_fresh by blast
  have "accounts w' = map (?g \<circ> ?f) (accounts w @ [?a])"
    unfolding w' w6 w5 by simp
  then have "account_of w' usr = Some ((?g \<circ> ?f) ?a)"
    using find_created[OF fresh, of "?g \<circ> ?f" ?a] usr by (simp add: account_of_def)
  moreover have "account_of w usr = None"
    using find_fresh[OF fresh] usr by (simp add: account_of_def)
  ultimately show ?thesis using complete(1,9) by simp
qed simp_all

theorem setup_returns_admin_witness:
  "\<exists>u a. user input0 = Some u \<and> account_of store0 (UserRef 1) = None \<and>
     account_of \<lparr>config = Some ''S'',
                 accounts = [\<lparr>acc_id = 1, acc_email = JStr ''a@b.com'', acc_username = JStr ''admin'',
                              acc_password = JStr ''Str0ngPW!'', acc_role = Some ''ADMIN'',
                              acc_confirmed = True\<rparr>],
                 applied = [''m1''], pending = []\<rparr> (UserRef 1) = Some a \<and>
     acc_role a = Some ''ADMIN'' \<and> acc_confirmed a \<and>
     acc_email a = email u \<and> acc_username a = username u \<and> acc_password a = password u"
  using setup_returns_admin[OF run0] by simp

text \<open>
  C2, as the code has it. After a call of \<^verbatim>\<open>setup\<close> that succeeds, the configuration
  is persisted, and \<^verbatim>\<open>isAvailable\<close> (with the lock unset and a working read) fails
  with \<open>ErrSettingsInit\<close>. \<^verbatim>\<open>setup\<close> itself makes no such check.
\<close>

theorem setup_then_isAvailable:
  assumes "setup' (ref_env lock faults tm) ctx inp w = (Inr res, w1, t)"
    and "faults' Select = None"
  shows "config w1 = Some (settings inp) \<and>
         isAvailable (ref_env False faults' tm') w1 = (Inl ErrSettingsInit, w1, [Ev Select None])"
proof -
  from assms(1) have "config w1 = Some (settings inp)"
  proof (cases rule: setup_cases)
    case (complete u vs v1 ms v2 x v3 s' v4 usr v5 y v6 z)
    from ref_update_config[OF complete(5)] ref_create_config[OF complete(6)]
      ref_setRole_config[OF complete(7)] ref_confirmEmail_config[OF complete(8)]
    show ?thesis by simp
  qed simp_all
  with assms(2) show ?thesis
    by (simp add: isAvailable_def io_defs ref_env_def inject_def store_select_def)
qed

theorem setup_then_isAvailable_witness:
  "config \<lparr>config = Some ''S'',
          accounts = [\<lparr>acc_id = 1, acc_email = JStr ''a@b.com'', acc_username = JStr ''admin'',
                       acc_password = JStr ''Str0ngPW!'', acc_role = Some ''ADMIN'',
                       acc_confirmed = True\<rparr>],
          applied = [''m1''], pending = []\<rparr> = Some (settings input0) \<and>
   isAvailable (ref_env False no_faults at_once)
     \<lparr>config = Some ''S'',
      accounts = [\<lparr>acc_id = 1, acc_email = JStr ''a@b.com'', acc_username = JStr ''admin'',
                   acc_password = JStr ''Str0ngPW!'', acc_role = Some ''ADMIN'',
                   acc_confirmed = True\<rparr>],
      applied = [''m1''], pending = []\<rparr> =
   (Inl ErrSettingsInit,
    \<lparr>config = Some ''S'',
      accounts = [\<lparr>acc_id = 1, acc_email = JStr ''a@b.com'', acc_username = JStr ''admin'',
                   acc_password = JStr ''Str0ngPW!'', acc_role = Some ''ADMIN'',
                   acc_confirmed = True\<rparr>],
      applied = [''m1''], pending = []\<rparr>,
    [Ev Select None])"
proof -
  have "no_faults Select = None" by (simp add: no_faults_def)
  from setup_then_isAvailable[where faults' = no_faults and tm' = at_once, OF run0 this]
  show ?thesis by (simp add: input0_def)
qed

text \<open>
  C2 as stated fails: after a first \<^verbatim>\<open>setup\<close> that succeeded and persisted the
  configuration, a second \<^verbatim>\<open>setup\<close> succeeds as well.
\<close>

theorem second_setup_counterexample:
  "fst (setup' (ref_env False no_faults at_once) () input0 store0) =
     Inr \<lparr>r_settings = ''S'',
          r_user = UserRef 1\<rparr> \<and>
   config (fst (snd (setup' (ref_env False no_faults at_once) () input0 store0))) = Some ''S'' \<and>
   fst (setup' (ref_env False no_faults at_once) () input1
          (fst (snd (setup' (ref_env False no_faults at_once) () input0 store0)))) =
     Inr \<lparr>r_settings = ''S2'',
          r_user = UserRef 2\<rparr>"
  by (simp add: setup'_def validate_def io_defs store_defs Let_def)

end
